theory Spec2Isabelle
  imports Main "HOL-Library.Sublist"
begin

section \<open>Strings as Python sees them\<close>

text \<open>
  Python strings are modelled as \<open>string\<close> (lists of 8-bit characters, read as the code
  points 0..255). \<open>s.startswith(p)\<close> is \<open>prefix p s\<close>, \<open>s.endswith(p)\<close> is
  \<open>suffix p s\<close>, \<open>s[:n]\<close> is \<open>take n s\<close> and \<open>s[n:]\<close> is \<open>drop n s\<close> for
  non-negative \<open>n\<close>.
\<close>

text \<open>\<open>s.find(sub)\<close>: the least index at which \<open>sub\<close> occurs in \<open>s\<close>; \<open>None\<close>
  stands for Python's \<open>-1\<close>. \<open>sub in s\<close> is \<open>str_find sub s \<noteq> None\<close> and
  \<open>s.index(sub)\<close> is the index found.\<close>

fun str_find :: "string \<Rightarrow> string \<Rightarrow> nat option" where
  "str_find sub [] = (if sub = [] then Some 0 else None)"
| "str_find sub (c # cs) =
     (if prefix sub (c # cs) then Some 0 else map_option Suc (str_find sub cs))"

definition str_in :: "string \<Rightarrow> string \<Rightarrow> bool" where
  "str_in sub s = (str_find sub s \<noteq> None)"

text \<open>\<open>s.replace(a, b)\<close> for a single character \<open>a\<close>.\<close>

definition replace_char :: "char \<Rightarrow> string \<Rightarrow> string \<Rightarrow> string" where
  "replace_char a b s = concat (map (\<lambda>c. if c = a then b else [c]) s)"

section \<open>Type signature converter (rzapkinfo.py)\<close>

definition PRIMITIVE_TYPE_MAPPING :: "(string \<times> string) list" where
  "PRIMITIVE_TYPE_MAPPING =
     [(''void'', ''V''), (''boolean'', ''Z''), (''byte'', ''B''), (''char'', ''C''),
      (''short'', ''S''), (''int'', ''I''), (''long'', ''J''), (''float'', ''F''),
      (''double'', ''D'')]"

lemma str_find_bound: "str_find sub s = Some i \<Longrightarrow> i + length sub \<le> length s"
proof (induction s arbitrary: i)
  case Nil
  then show ?case by (simp split: if_splits)
next
  case (Cons c cs)
  show ?case
  proof (cases "prefix sub (c # cs)")
    case True
    with Cons.prems have "i = 0" by simp
    with prefix_length_le [OF True] show ?thesis by simp
  next
    case False
    with Cons.prems obtain j where "str_find sub cs = Some j" "i = Suc j" by auto
    with Cons.IH show ?thesis by fastforce
  qed
qed

function convert_type_to_type_signature :: "string \<Rightarrow> string" where
  "convert_type_to_type_signature raw_type =
     (if raw_type = [] then raw_type
      else if suffix ''[]'' raw_type then
        ''['' @ convert_type_to_type_signature (take (length raw_type - 2) raw_type)
      else if prefix ''['' raw_type then
        ''['' @ convert_type_to_type_signature (drop 1 raw_type)
      else case str_find ''...'' raw_type of
        Some index \<Rightarrow> ''['' @ convert_type_to_type_signature (take index raw_type)
      | None \<Rightarrow>
         (case map_of PRIMITIVE_TYPE_MAPPING raw_type of
            Some sig \<Rightarrow> sig
          | None \<Rightarrow>
             if CHR ''.'' \<in> set raw_type \<or> CHR ''_'' \<in> set raw_type then
               ''L'' @ replace_char CHR ''_'' ''$'' (replace_char CHR ''.'' ''/'' raw_type) @ '';''
             else ''Ljava/lang/'' @ raw_type @ '';''))"
  by pat_completeness auto
termination
proof (relation "measure length")
  show "wf (measure length)" by simp
next
  fix raw_type :: string
  assume "raw_type \<noteq> []"
  then show "(take (length raw_type - 2) raw_type, raw_type) \<in> measure length"
    by (cases raw_type) auto
next
  fix raw_type :: string
  assume "raw_type \<noteq> []"
  then show "(drop 1 raw_type, raw_type) \<in> measure length"
    by (cases raw_type) auto
next
  fix raw_type :: string and index :: nat
  assume "str_find ''...'' raw_type = Some index"
  from str_find_bound [OF this] show "(take index raw_type, raw_type) \<in> measure length"
    by simp
qed

declare convert_type_to_type_signature.simps [simp del]

subsection \<open>Array and variadic rules of the converter\<close>

lemma convert_array_suffix:
  "convert_type_to_type_signature (T @ ''[]'') = ''['' @ convert_type_to_type_signature T"
  by (subst convert_type_to_type_signature.simps) (simp add: suffix_def)

lemma concat_replicate_snoc: "concat (replicate (Suc k) x) = concat (replicate k x) @ x"
  by (induction k) auto

lemma suffix_brackets_cons:
  assumes "suffix ''[]'' (CHR ''['' # T)" "T \<noteq> '']''"
  shows "\<exists>T'. T = T' @ ''[]''"
proof -
  from assms(1) obtain zs where zs: "CHR ''['' # T = zs @ ''[]''" by (auto simp: suffix_def)
  show ?thesis
  proof (cases zs)
    case Nil
    with zs assms(2) show ?thesis by simp
  next
    case (Cons z zs')
    with zs have "T = zs' @ ''[]''" by simp
    then show ?thesis by blast
  qed
qed

lemma convert_array_prefix:
  "(\<forall>k. T \<noteq> '']'' @ concat (replicate k ''[]'')) \<Longrightarrow>
   convert_type_to_type_signature (''['' @ T) = ''['' @ convert_type_to_type_signature T"
proof (induction "length T" arbitrary: T rule: less_induct)
  case less
  from less.prems [rule_format, of 0] have ne: "T \<noteq> '']''" by simp
  show ?case
  proof (cases "suffix ''[]'' (CHR ''['' # T)")
    case True
    from suffix_brackets_cons [OF True ne] obtain T' where T: "T = T' @ ''[]''" by blast
    have "\<forall>k. T' \<noteq> '']'' @ concat (replicate k ''[]'')"
    proof (intro allI notI)
      fix k assume "T' = '']'' @ concat (replicate k ''[]'')"
      then have "T = '']'' @ concat (replicate (Suc k) ''[]'')"
        using T concat_replicate_snoc [of k "''[]''"] by simp
      with less.prems show False by blast
    qed
    with less.hyps [of T'] T
    have IH: "convert_type_to_type_signature (''['' @ T') = ''['' @ convert_type_to_type_signature T'"
      by simp
    have "convert_type_to_type_signature (''['' @ T) =
          ''['' @ convert_type_to_type_signature (''['' @ T')"
      using convert_array_suffix [of "''['' @ T'"] T by simp
    also have "\<dots> = ''['' @ ''['' @ convert_type_to_type_signature T'" using IH by simp
    also have "\<dots> = ''['' @ convert_type_to_type_signature T"
      using convert_array_suffix [of T'] T by simp
    finally show ?thesis .
  next
    case False
    then show ?thesis
      by (subst convert_type_to_type_signature.simps) simp
  qed
qed

lemma not_suffix_brackets_dots: "\<not> suffix ''[]'' (E @ ''...'')"
proof
  assume "suffix ''[]'' (E @ ''...'')"
  then obtain zs where "E @ ''...'' = zs @ ''[]''" by (auto simp: suffix_def)
  then have "last (E @ ''...'') = last (zs @ ''[]'')" by simp
  then show False by simp
qed

lemma str_find_dots_end:
  "str_find ''...'' E = None \<Longrightarrow> \<not> suffix ''.'' E \<Longrightarrow>
   str_find ''...'' (E @ ''...'') = Some (length E)"
proof (induction E)
  case Nil
  then show ?case by simp
next
  case (Cons c cs)
  from Cons.prems(1) have np: "\<not> prefix ''...'' (c # cs)" and nf: "str_find ''...'' cs = None"
    by (auto split: if_splits)
  have ns: "\<not> suffix ''.'' cs"
  proof
    assume "suffix ''.'' cs"
    then have "suffix ''.'' (c # cs)" by (rule suffix_ConsI)
    with Cons.prems(2) show False by simp
  qed
  have "\<not> prefix ''...'' (c # cs @ ''...'')"
  proof
    assume p: "prefix ''...'' (c # cs @ ''...'')"
    then have c: "c = CHR ''.''" by auto
    show False
    proof (cases cs)
      case Nil
      with c Cons.prems(2) show False by simp
    next
      case (Cons d ds)
      with p have d: "d = CHR ''.''" by auto
      show False
      proof (cases ds)
        case Nil
        with d Cons ns show False by simp
      next
        case (Cons e es)
        with p \<open>cs = d # ds\<close> have "e = CHR ''.''" by auto
        with c d Cons \<open>cs = d # ds\<close> np show False by simp
      qed
    qed
  qed
  with Cons.IH [OF nf ns] show ?case by simp
qed

lemma convert_variadic:
  assumes "\<not> prefix ''['' E" "\<not> suffix ''.'' E" "\<not> str_in ''...'' E"
  shows "convert_type_to_type_signature (E @ ''...'') = ''['' @ convert_type_to_type_signature E"
proof -
  from assms(3) have "str_find ''...'' E = None" by (simp add: str_in_def)
  from str_find_dots_end [OF this assms(2)]
  have f: "str_find ''...'' (E @ ''...'') = Some (length E)" .
  from assms(1) have np: "\<not> prefix ''['' (E @ ''...'')" by (cases E) auto
  show ?thesis
    by (subst convert_type_to_type_signature.simps)
       (simp add: f np not_suffix_brackets_dots)
qed

lemma str_find_tail_None: "str_find sub (c # cs) = None \<Longrightarrow> str_find sub cs = None"
  by (auto split: if_splits)

lemma convert_variadic_general:
  "\<not> suffix ''.'' E \<Longrightarrow> \<not> str_in ''...'' E \<Longrightarrow>
   (\<forall>k. dropWhile (\<lambda>c. c = CHR ''['') E \<noteq> '']'' @ concat (replicate k ''[]'')) \<Longrightarrow>
   convert_type_to_type_signature (E @ ''...'') = ''['' @ convert_type_to_type_signature E"
proof (induction E)
  case Nil
  then show ?case using convert_variadic [of "[]"] by simp
next
  case (Cons c cs)
  show ?case
  proof (cases "c = CHR ''[''")
    case False
    then have "\<not> prefix ''['' (c # cs)" by simp
    with Cons.prems show ?thesis using convert_variadic [of "c # cs"] by blast
  next
    case True
    have s: "\<not> suffix ''.'' cs"
    proof
      assume "suffix ''.'' cs"
      then have "suffix ''.'' (c # cs)" by (rule suffix_ConsI)
      with Cons.prems(1) show False by simp
    qed
    from Cons.prems(2) have f: "\<not> str_in ''...'' cs"
      using str_find_tail_None [of "''...''" c cs] by (simp add: str_in_def)
    from Cons.prems(3) True
    have d: "\<forall>k. dropWhile (\<lambda>c. c = CHR ''['') cs \<noteq> '']'' @ concat (replicate k ''[]'')"
      by simp
    have x: "\<forall>k. cs \<noteq> '']'' @ concat (replicate k ''[]'')"
    proof (intro allI notI)
      fix k assume e: "cs = '']'' @ concat (replicate k ''[]'')"
      then have "dropWhile (\<lambda>c. c = CHR ''['') cs = cs" by simp
      with d e show False by metis
    qed
    have "convert_type_to_type_signature ((c # cs) @ ''...'')
            = ''['' @ convert_type_to_type_signature (cs @ ''...'')"
      using True not_suffix_brackets_dots [of "c # cs"]
      by (subst convert_type_to_type_signature.simps) simp
    also have "\<dots> = ''['' @ ''['' @ convert_type_to_type_signature cs"
      using Cons.IH [OF s f d] by simp
    also have "\<dots> = ''['' @ convert_type_to_type_signature (''['' @ cs)"
      using convert_array_prefix [OF x] by simp
    finally show ?thesis using True by simp
  qed
qed

text \<open>
  Claim C4. The array rules come before every other rule of the converter. A type name
  is an element type with \<open>[\<close> in front of it or \<open>[]\<close> behind it, once or several
  times, or with \<open>...\<close> behind it; it is never the text \<open>]\<close> followed by
  \<open>[]\<close>s, its element type does not end in a dot and holds no \<open>...\<close>. For every
  text \<open>T\<close>, \<open>convert(T + "[]") = "[" + convert(T)\<close>; for every \<open>T\<close> that is not
  \<open>]\<close> followed by \<open>[]\<close>s, \<open>convert("[" + T) = "[" + convert(T)\<close>; nesting
  composes, \<open>convert("String[][]") = "[[Ljava/lang/String;"\<close>; and for every \<open>E\<close>
  that does not end in a dot, holds no \<open>...\<close> and is not \<open>[\<close>s, \<open>]\<close> and
  \<open>[]\<close>s in this order, \<open>convert(E + "...") = "[" + convert(E)\<close>.
\<close>

theorem convert_array_rules:
  "convert_type_to_type_signature (T @ ''[]'') = ''['' @ convert_type_to_type_signature T
   \<and> ((\<forall>k. T \<noteq> '']'' @ concat (replicate k ''[]'')) \<longrightarrow>
        convert_type_to_type_signature (''['' @ T) = ''['' @ convert_type_to_type_signature T)
   \<and> (\<not> suffix ''.'' E \<and> \<not> str_in ''...'' E
        \<and> (\<forall>k. dropWhile (\<lambda>c. c = CHR ''['') E \<noteq> '']'' @ concat (replicate k ''[]'')) \<longrightarrow>
        convert_type_to_type_signature (E @ ''...'') = ''['' @ convert_type_to_type_signature E)
   \<and> convert_type_to_type_signature ''String[][]'' = ''[[Ljava/lang/String;''"
proof -
  have "convert_type_to_type_signature ''String[][]'' = ''[[Ljava/lang/String;''"
    by code_simp
  then show ?thesis
    using convert_array_suffix [of T] convert_array_prefix [of T]
      convert_variadic_general [of E]
    by blast
qed

theorem convert_array_rules_witness:
  "(\<forall>k. ''String'' \<noteq> '']'' @ concat (replicate k ''[]''))
   \<and> \<not> suffix ''.'' ''[int'' \<and> \<not> str_in ''...'' ''[int''
   \<and> (\<forall>k. dropWhile (\<lambda>c. c = CHR ''['') ''[int'' \<noteq> '']'' @ concat (replicate k ''[]''))
   \<and> convert_type_to_type_signature (''String'' @ ''[]'') = ''[Ljava/lang/String;''
   \<and> convert_type_to_type_signature (''['' @ ''String'') = ''[Ljava/lang/String;''
   \<and> convert_type_to_type_signature (''[int'' @ ''...'') = ''[[I''"
proof -
  have h1: "\<forall>k. ''String'' \<noteq> '']'' @ concat (replicate k ''[]'')" by simp
  have h2: "\<not> suffix ''.'' ''[int'' \<and> \<not> str_in ''...'' ''[int''"
    by (simp add: str_in_def suffix_def Cons_eq_append_conv)
  have h3: "\<forall>k. dropWhile (\<lambda>c. c = CHR ''['') ''[int'' \<noteq> '']'' @ concat (replicate k ''[]'')"
    by simp
  have v1: "convert_type_to_type_signature ''String'' = ''Ljava/lang/String;''" by code_simp
  have v2: "convert_type_to_type_signature ''[int'' = ''[I''" by code_simp
  from convert_array_rules [of "''String''" "''[int''"] h1 h2 h3 v1 v2 show ?thesis
    by simp
qed

section \<open>MethodObject (struct/methodobject.py)\<close>

text \<open>The backend handle \<open>RizinCache = namedtuple("rizin_cache", "address dexindex
  is_imported")\<close> of rzapkinfo.py.\<close>

record RizinCache =
  address :: int
  dexindex :: nat
  is_imported :: bool

text \<open>
  \<open>@dataclass(unsafe_hash=True) class MethodObject\<close>: the fields \<open>access_flags\<close> and
  \<open>cache\<close> are declared with \<open>field(compare=False, default=None)\<close>, so the generated
  \<open>__eq__\<close> and \<open>__hash__\<close> read the tuple \<open>(class_name, name, descriptor)\<close> only.
\<close>

record MethodObject =
  class_name :: string
  name :: string
  descriptor :: string
  access_flags :: "string list option"
  cache :: "RizinCache option"

text \<open>The generated \<open>__eq__\<close> compares the tuples of the compared fields.\<close>

definition compare_fields :: "MethodObject \<Rightarrow> string \<times> string \<times> string" where
  "compare_fields m = (class_name m, name m, descriptor m)"

definition method_eq :: "MethodObject \<Rightarrow> MethodObject \<Rightarrow> bool" where
  "method_eq a b = (compare_fields a = compare_fields b)"

text \<open>The generated \<open>__hash__\<close> is Python's \<open>hash\<close> of the same tuple; the hash of a
  tuple of strings is the interpreter's (salted per process), so it is a parameter.\<close>

definition method_hash :: "(string \<times> string \<times> string \<Rightarrow> int) \<Rightarrow> MethodObject \<Rightarrow> int" where
  "method_hash tuple_hash m = tuple_hash (compare_fields m)"

text \<open>
  A Python \<open>set\<close> of MethodObjects, as the list of its elements in insertion order:
  \<open>s.add(x)\<close> leaves the set alone when it holds an element with the hash of \<open>x\<close> that
  is \<open>==\<close> to \<open>x\<close>, and inserts \<open>x\<close> otherwise. \<open>set(xs)\<close> adds the elements of
  \<open>xs\<close> from left to right.
\<close>

definition set_add :: "(string \<times> string \<times> string \<Rightarrow> int) \<Rightarrow> MethodObject \<Rightarrow> MethodObject list
    \<Rightarrow> MethodObject list" where
  "set_add tuple_hash x s =
     (if \<exists>y \<in> set s. method_hash tuple_hash y = method_hash tuple_hash x \<and> method_eq y x
      then s else s @ [x])"

definition py_set :: "(string \<times> string \<times> string \<Rightarrow> int) \<Rightarrow> MethodObject list \<Rightarrow> MethodObject list" where
  "py_set tuple_hash xs = fold (set_add tuple_hash) xs []"

lemma set_add_absorb:
  assumes "compare_fields a = compare_fields b"
  shows "set_add h b (set_add h a s) = set_add h a s"
proof -
  have "a \<in> set (set_add h a s) \<or> (\<exists>y \<in> set s. method_hash h y = method_hash h a \<and> method_eq y a)"
    by (simp add: set_add_def)
  then have "\<exists>y \<in> set (set_add h a s). method_hash h y = method_hash h a \<and> method_eq y a"
    by (auto simp: set_add_def method_eq_def)
  with assms have "\<exists>y \<in> set (set_add h a s). method_hash h y = method_hash h b \<and> method_eq y b"
    by (simp add: method_eq_def method_hash_def)
  then show ?thesis by (subst set_add_def) simp
qed

text \<open>
  Claim C3. Equality is exactly equality of the triple (declaring class descriptor, method
  name, descriptor); values with the same triple have the same hash and are one element
  of any set, whatever their access flags and backend handles (address, sub-image index,
  imported flag) are.
\<close>

theorem method_identity:
  "(method_eq a b \<longleftrightarrow>
      class_name a = class_name b \<and> name a = name b \<and> descriptor a = descriptor b)
   \<and> method_eq (a\<lparr>access_flags := f, cache := c\<rparr>) a
   \<and> (class_name a = class_name b \<and> name a = name b \<and> descriptor a = descriptor b \<longrightarrow>
        method_hash h a = method_hash h b
        \<and> set_add h b (set_add h a s) = set_add h a s
        \<and> length (py_set h [a, b]) = 1)"
proof -
  have eq: "method_eq a b \<longleftrightarrow>
      class_name a = class_name b \<and> name a = name b \<and> descriptor a = descriptor b"
    by (simp add: method_eq_def compare_fields_def)
  have upd: "method_eq (a\<lparr>access_flags := f, cache := c\<rparr>) a"
    by (simp add: method_eq_def compare_fields_def)
  have "method_hash h a = method_hash h b
        \<and> set_add h b (set_add h a s) = set_add h a s
        \<and> length (py_set h [a, b]) = 1"
    if "class_name a = class_name b \<and> name a = name b \<and> descriptor a = descriptor b"
  proof -
    from that have cf: "compare_fields a = compare_fields b" by (simp add: compare_fields_def)
    have "py_set h [a, b] = set_add h b (set_add h a [])" by (simp add: py_set_def)
    also have "\<dots> = set_add h a []" by (rule set_add_absorb [OF cf])
    finally have "length (py_set h [a, b]) = 1" by (simp add: set_add_def)
    with cf set_add_absorb [OF cf] show ?thesis by (simp add: method_hash_def)
  qed
  with eq upd show ?thesis by blast
qed

theorem method_identity_witness:
  "method_eq \<lparr>class_name = ''La;'', name = ''f'', descriptor = ''()V'', access_flags = None,
               cache = Some \<lparr>address = 16, dexindex = 0, is_imported = False\<rparr>\<rparr>
             \<lparr>class_name = ''La;'', name = ''f'', descriptor = ''()V'',
               access_flags = Some [''public''],
               cache = Some \<lparr>address = 32, dexindex = 1, is_imported = True\<rparr>\<rparr>
   \<and> length (py_set (\<lambda>t. 0)
       [\<lparr>class_name = ''La;'', name = ''f'', descriptor = ''()V'', access_flags = None,
               cache = Some \<lparr>address = 16, dexindex = 0, is_imported = False\<rparr>\<rparr>,
        \<lparr>class_name = ''La;'', name = ''f'', descriptor = ''()V'',
               access_flags = Some [''public''],
               cache = Some \<lparr>address = 32, dexindex = 1, is_imported = True\<rparr>\<rparr>]) = 1"
  using method_identity [of
     "\<lparr>class_name = ''La;'', name = ''f'', descriptor = ''()V'', access_flags = None,
               cache = Some \<lparr>address = 16, dexindex = 0, is_imported = False\<rparr>\<rparr>"
     "\<lparr>class_name = ''La;'', name = ''f'', descriptor = ''()V'',
               access_flags = Some [''public''],
               cache = Some \<lparr>address = 32, dexindex = 1, is_imported = True\<rparr>\<rparr>"
     None None "\<lambda>t. 0" "[]"]
  by simp

section \<open>Errors\<close>

text \<open>The exceptions the modelled code can raise, as values.\<close>

datatype error = ValueError | IndexError | UnboundLocalError | AttributeError | TypeError

section \<open>Descriptor format conversion (utils/tools.py)\<close>

text \<open>\<open>sep.join(xs)\<close>.\<close>

fun join :: "string \<Rightarrow> string list \<Rightarrow> string" where
  "join sep [] = []"
| "join sep [x] = x"
| "join sep (x # y # ys) = x @ sep @ join sep (y # ys)"

text \<open>
  The regular expression \<open>L.+?;|[ZBCSIJFD]|\[\<close> of \<open>re.findall\<close>. After an \<open>L\<close>, the
  lazy \<open>.+?;\<close> takes one character that is not a newline and then the shortest run of
  such characters up to a \<open>;\<close>. \<open>lazy_until_semicolon\<close> is \<open>.*?;\<close> and
  \<open>match_class\<close> is \<open>.+?;\<close>; both return the text they consume.
\<close>

fun lazy_until_semicolon :: "string \<Rightarrow> string option" where
  "lazy_until_semicolon [] = None"
| "lazy_until_semicolon (c # cs) =
     (if c = CHR '';'' then Some [c]
      else if c = CHR 0x0A then None
      else map_option ((#) c) (lazy_until_semicolon cs))"

fun match_class :: "string \<Rightarrow> string option" where
  "match_class [] = None"
| "match_class (c # cs) =
     (if c = CHR 0x0A then None else map_option ((#) c) (lazy_until_semicolon cs))"

lemma lazy_until_semicolon_length:
  "lazy_until_semicolon s = Some body \<Longrightarrow> length body \<le> length s"
  by (induction s arbitrary: body) (auto split: if_splits)

lemma match_class_length: "match_class s = Some body \<Longrightarrow> length body \<le> length s"
  by (cases s) (auto split: if_splits dest: lazy_until_semicolon_length)

text \<open>\<open>re.findall\<close> scans from the left, tries the three alternatives in their order at
  each position, continues behind a match and moves one character on where none
  matches.\<close>

function findall_args :: "string \<Rightarrow> string list" where
  "findall_args [] = []"
| "findall_args (c # cs) =
     (case (if c = CHR ''L'' then match_class cs else None) of
        Some body \<Rightarrow> (c # body) # findall_args (drop (length body) cs)
      | None \<Rightarrow>
          if c \<in> set ''ZBCSIJFD'' \<or> c = CHR ''['' then [c] # findall_args cs
          else findall_args cs)"
  by pat_completeness auto
termination
  by (relation "measure length") auto

text \<open>\<open>re.sub(r"\[ ", "[", s)\<close>: every \<open>"[ "\<close> becomes \<open>"["\<close>, from the left.\<close>

fun sub_bracket_space :: "string \<Rightarrow> string" where
  "sub_bracket_space (a # b # cs) =
     (if a = CHR ''['' \<and> b = CHR '' '' then CHR ''['' # sub_bracket_space cs
      else a # sub_bracket_space (b # cs))"
| "sub_bracket_space cs = cs"

text \<open>\<open>descriptor.index(")")\<close> raises ValueError when there is no \<open>")"\<close>; the guard
  before it has excluded that.\<close>

definition descriptor_to_androguard_format :: "string \<Rightarrow> error + string" where
  "descriptor_to_androguard_format desc =
     (if \<not> str_in ''('' desc \<or> \<not> str_in '')'' desc then Inl ValueError
      else case str_find '')'' desc of
        None \<Rightarrow> Inl ValueError
      | Some delimiter \<Rightarrow>
          let arg_str = take delimiter desc;
              args = findall_args arg_str;
              new_desc = ''('' @ join '' '' args @ drop delimiter desc
          in Inr (sub_bracket_space new_desc))"

text \<open>
  The wording of the specification, for comparison with the guard of the code: the text
  holds a balanced parenthesis pair when some \<open>(\<close> has a \<open>)\<close> behind it.
\<close>

definition spec_has_balanced_pair :: "string \<Rightarrow> bool" where
  "spec_has_balanced_pair desc = (CHR '')'' \<in> set (dropWhile (\<lambda>c. c \<noteq> CHR ''('') desc))"

lemma str_in_char: "str_in [c] s \<longleftrightarrow> c \<in> set s"
  by (induction s) (auto simp: str_in_def)

lemma spec_has_balanced_pair_iff:
  "spec_has_balanced_pair desc \<longleftrightarrow>
     (\<exists>pre mid post. desc = pre @ ''('' @ mid @ '')'' @ post)"
proof
  assume "spec_has_balanced_pair desc"
  then have "CHR '')'' \<in> set (dropWhile (\<lambda>c. c \<noteq> CHR ''('') desc)"
    by (simp add: spec_has_balanced_pair_def)
  then obtain mid post where mp: "dropWhile (\<lambda>c. c \<noteq> CHR ''('') desc = mid @ CHR '')'' # post"
    by (auto simp: in_set_conv_decomp)
  then have "mid \<noteq> []" using hd_dropWhile [of "\<lambda>c. c \<noteq> CHR ''(''" desc]
    by (cases mid) auto
  then obtain mid' where "mid = CHR ''('' # mid'"
    using mp hd_dropWhile [of "\<lambda>c. c \<noteq> CHR ''(''" desc] by (cases mid) auto
  with mp have "desc = takeWhile (\<lambda>c. c \<noteq> CHR ''('') desc @ ''('' @ mid' @ '')'' @ post"
    using takeWhile_dropWhile_id [of "\<lambda>c. c \<noteq> CHR ''(''" desc] by simp
  then show "\<exists>pre mid post. desc = pre @ ''('' @ mid @ '')'' @ post" by blast
next
  assume "\<exists>pre mid post. desc = pre @ ''('' @ mid @ '')'' @ post"
  then obtain pre mid post where d: "desc = pre @ ''('' @ mid @ '')'' @ post" by blast
  have "CHR '')'' \<in> set (dropWhile (\<lambda>c. c \<noteq> CHR ''('') (pre @ ''('' @ mid @ '')'' @ post))"
    by (induction pre) auto
  with d show "spec_has_balanced_pair desc" by (simp add: spec_has_balanced_pair_def)
qed

lemma descriptor_to_androguard_format_raises:
  "(\<exists>e. descriptor_to_androguard_format desc = Inl e)
     \<longleftrightarrow> CHR ''('' \<notin> set desc \<or> CHR '')'' \<notin> set desc"
proof (cases "CHR ''('' \<in> set desc \<and> CHR '')'' \<in> set desc")
  case True
  then have "str_find '')'' desc \<noteq> None" using str_in_char [of "CHR '')''" desc]
    by (simp add: str_in_def)
  then obtain i where "str_find '')'' desc = Some i" by blast
  with True show ?thesis
    by (simp add: descriptor_to_androguard_format_def str_in_char Let_def)
next
  case False
  then show ?thesis
    by (auto simp: descriptor_to_androguard_format_def str_in_char)
qed

text \<open>
  Claim C6, as the code has it. The conversion raises (ValueError, the only error it has)
  exactly when the text holds no \<open>(\<close> or no \<open>)\<close>; the guard does not look at their
  order. So every text with a balanced pair is converted, and so is a text that has both
  characters in the wrong order. The function is pure: its result is a value, an error
  or a text, and nothing else is touched.
\<close>

theorem descriptor_to_androguard_format_error:
  "((\<exists>e. descriptor_to_androguard_format desc = Inl e)
      \<longleftrightarrow> CHR ''('' \<notin> set desc \<or> CHR '')'' \<notin> set desc)
   \<and> (descriptor_to_androguard_format desc = Inl e \<longrightarrow> e = ValueError)
   \<and> (spec_has_balanced_pair desc \<longrightarrow> (\<exists>s. descriptor_to_androguard_format desc = Inr s))"
proof -
  have a: "(\<exists>e. descriptor_to_androguard_format desc = Inl e)
      \<longleftrightarrow> CHR ''('' \<notin> set desc \<or> CHR '')'' \<notin> set desc"
    by (rule descriptor_to_androguard_format_raises)
  have b: "descriptor_to_androguard_format desc = Inl e \<longrightarrow> e = ValueError"
    by (auto simp: descriptor_to_androguard_format_def Let_def split: if_splits option.splits)
  have c: "\<exists>s. descriptor_to_androguard_format desc = Inr s" if "spec_has_balanced_pair desc"
  proof -
    from that obtain pre mid post where "desc = pre @ ''('' @ mid @ '')'' @ post"
      using spec_has_balanced_pair_iff by blast
    then have "CHR ''('' \<in> set desc \<and> CHR '')'' \<in> set desc" by simp
    with a have "\<not> (\<exists>e. descriptor_to_androguard_format desc = Inl e)" by simp
    then show ?thesis by (cases "descriptor_to_androguard_format desc") auto
  qed
  from a b c show ?thesis by blast
qed

theorem descriptor_to_androguard_format_error_witness:
  "spec_has_balanced_pair ''(I[J)V''
   \<and> descriptor_to_androguard_format ''(I[J)V'' = Inr ''(I [J)V''
   \<and> descriptor_to_androguard_format ''IV'' = Inl ValueError"
proof -
  have h: "spec_has_balanced_pair ''(I[J)V''" by (simp add: spec_has_balanced_pair_def)
  have v: "descriptor_to_androguard_format ''(I[J)V'' = Inr ''(I [J)V''" by code_simp
  have w: "\<exists>e. descriptor_to_androguard_format ''IV'' = Inl e"
    using descriptor_to_androguard_format_error [of "''IV''"] by simp
  then obtain e where e: "descriptor_to_androguard_format ''IV'' = Inl e" by blast
  with descriptor_to_androguard_format_error [of "''IV''" e] have "e = ValueError" by blast
  from descriptor_to_androguard_format_error [of "''(I[J)V''"] h
  have "\<exists>s. descriptor_to_androguard_format ''(I[J)V'' = Inr s" by blast
  with \<open>e = ValueError\<close> e h v show ?thesis by simp
qed

text \<open>
  The claim as worded fails at \<open>")("\<close>: the text has no balanced pair, and the
  conversion returns \<open>"()("\<close> instead of raising.
\<close>

theorem descriptor_to_androguard_format_error_counterexample:
  "\<not> spec_has_balanced_pair '')(''
   \<and> descriptor_to_androguard_format '')('' = Inr ''()(''"
  by code_simp

section \<open>Symbol demangler (rzapkinfo.py)\<close>

text \<open>One object of the JSON array that the backend returns for its symbol listing
  (\<open>isj\<close>) and for the symbol at an address (\<open>is.j\<close>). The code reads \<open>type\<close> with
  \<open>.get\<close>, so it may be absent; the other keys are read by subscript.\<close>

record isj_obj =
  sym_type :: "string option"
  sym_name :: string
  sym_realname :: string
  sym_flagname :: string
  sym_vaddr :: int
  sym_is_imported :: bool

definition RIZIN_ESCAPE_CHAR_LIST :: "char list" where
  "RIZIN_ESCAPE_CHAR_LIST = [CHR ''<'', CHR ''>'', CHR ''$'']"

definition escape_str_in_rizin_manner :: "string \<Rightarrow> string" where
  "escape_str_in_rizin_manner raw_str = fold (\<lambda>c s. replace_char c ''_'' s) RIZIN_ESCAPE_CHAR_LIST raw_str"

text \<open>The character class \<open>[A-Za-z]\<close>.\<close>

definition is_alpha :: "char \<Rightarrow> bool" where
  "is_alpha c = (c \<in> set ''ABCDEFGHIJKLMNOPQRSTUVWXYZabcdefghijklmnopqrstuvwxyz'')"

text \<open>
  The first match of \<open>\(.*\).*\<close> in the display name: the leftmost \<open>(\<close> that has a
  \<open>)\<close> behind it on its line; the match runs to the end of that line (\<open>.\<close> matches
  every character but the newline).
\<close>

fun match_paren_sig :: "string \<Rightarrow> string option" where
  "match_paren_sig [] = None"
| "match_paren_sig (c # cs) =
     (if c = CHR ''('' \<and> CHR '')'' \<in> set (takeWhile (\<lambda>x. x \<noteq> CHR 0x0A) cs)
      then Some (c # takeWhile (\<lambda>x. x \<noteq> CHR 0x0A) cs)
      else match_paren_sig cs)"

text \<open>
  The first match of \<open>[A-Za-zL][A-Za-z0-9L/\;[\]$.]+ \<close> (with its final blank) in the
  display name, stripped: a letter, the longest run of characters of the class, which
  must not be empty, and a blank right behind the run. The blank is not in the class, so
  no shorter run can match.
\<close>

definition is_type_char :: "char \<Rightarrow> bool" where
  "is_type_char c = (is_alpha c \<or> c \<in> set ''0123456789/;[]$.'')"

fun find_return_type :: "string \<Rightarrow> string option" where
  "find_return_type [] = None"
| "find_return_type (c # cs) =
     (if is_alpha c \<and> takeWhile is_type_char cs \<noteq> []
         \<and> prefix '' '' (dropWhile is_type_char cs)
      then Some (c # takeWhile is_type_char cs)
      else find_return_type cs)"

text \<open>\<open>s.split(", ")\<close>; the first argument collects the piece being read, reversed.\<close>

fun split_comma_space :: "string \<Rightarrow> string \<Rightarrow> string list" where
  "split_comma_space acc (a # b # cs) =
     (if a = CHR '','' \<and> b = CHR '' '' then rev acc # split_comma_space [] cs
      else split_comma_space (a # acc) (b # cs))"
| "split_comma_space acc [a] = [rev (a # acc)]"
| "split_comma_space acc [] = [rev acc]"

text \<open>
  All matches of \<open>_+[A-Za-z]+\<close> in the flag name, from the left: a longest run of
  underscores with a longest run of letters right behind it; the scan continues behind
  a match and one character on where there is none.
\<close>

function finditer_flag :: "string \<Rightarrow> string list" where
  "finditer_flag [] = []"
| "finditer_flag (c # cs) =
     (if c = CHR ''_'' \<and> takeWhile is_alpha (dropWhile (\<lambda>x. x = CHR ''_'') cs) \<noteq> []
      then (c # takeWhile (\<lambda>x. x = CHR ''_'') cs
              @ takeWhile is_alpha (dropWhile (\<lambda>x. x = CHR ''_'') cs))
           # finditer_flag (dropWhile is_alpha (dropWhile (\<lambda>x. x = CHR ''_'') cs))
      else finditer_flag cs)"
  by pat_completeness auto
termination
proof (relation "measure length")
  fix c :: char and cs :: string
  have "length (dropWhile is_alpha (dropWhile (\<lambda>x. x = CHR ''_'') cs))
          \<le> length (dropWhile (\<lambda>x. x = CHR ''_'') cs)"
    by (rule length_dropWhile_le)
  also have "\<dots> \<le> length cs" by (rule length_dropWhile_le)
  finally show "(dropWhile is_alpha (dropWhile (\<lambda>x. x = CHR ''_'') cs), c # cs) \<in> measure length"
    by simp
qed auto

text \<open>\<open>s.rfind(sub)\<close>: the greatest index at which \<open>sub\<close> occurs; \<open>None\<close> for \<open>-1\<close>.\<close>

fun str_rfind :: "string \<Rightarrow> string \<Rightarrow> nat option" where
  "str_rfind sub [] = (if sub = [] then Some 0 else None)"
| "str_rfind sub (c # cs) =
     (case str_rfind sub cs of
        Some i \<Rightarrow> Some (Suc i)
      | None \<Rightarrow> if prefix sub (c # cs) then Some 0 else None)"

text \<open>\<open>flag_name[: flag_name.rfind(match)]\<close>; with \<open>rfind\<close> at \<open>-1\<close> the slice
  \<open>flag_name[:-1]\<close> drops the last character.\<close>

definition drop_method_name :: "string \<Rightarrow> string \<Rightarrow> string" where
  "drop_method_name flag_name match =
     (case str_rfind match flag_name of
        Some i \<Rightarrow> take i flag_name
      | None \<Rightarrow> butlast flag_name)"

text \<open>The loop \<open>while flag_name.startswith("sym.") or flag_name.startswith("imp."):
  flag_name = flag_name[4:]\<close>.\<close>

function drop_prefixes :: "string \<Rightarrow> string" where
  "drop_prefixes flag_name =
     (if prefix ''sym.'' flag_name \<or> prefix ''imp.'' flag_name
      then drop_prefixes (drop 4 flag_name) else flag_name)"
  by pat_completeness auto
termination
  by (relation "measure length") (auto simp: prefix_def)

declare drop_prefixes.simps [simp del]

text \<open>
  \<open>_parse_method_from_isj_obj\<close>, with its two sections as functions of their own:
  \<open>source_signature\<close> is the branch that rewrites a signature in source syntax (the
  matched text ends in \<open>)\<close>), and \<open>method_of_flag\<close> is the part from the
  \<open>sym.imp.clone\<close> test to the end. Its warnings (a flag name that does not hold the
  escaped method name, a damaged flag) are log lines and change no result; \<open>Inr None\<close>
  is the Python \<open>None\<close> it returns for a record it skips.
\<close>

definition source_signature :: "string \<Rightarrow> string \<Rightarrow> string option" where
  "source_signature full_method_name raw_argument_str =
     (case find_return_type full_method_name of
        None \<Rightarrow> None
      | Some return_type \<Rightarrow>
          Some (''('' @ join '' '' (map convert_type_to_type_signature
                         (split_comma_space [] (butlast (drop 1 raw_argument_str))))
                @ '')'' @ convert_type_to_type_signature return_type))"

definition method_of_flag :: "isj_obj \<Rightarrow> nat \<Rightarrow> string \<Rightarrow> MethodObject option" where
  "method_of_flag json_obj dex desc =
     (if sym_flagname json_obj = ''sym.imp.clone'' then
        Some \<lparr>class_name = [], name = ''clone'', descriptor = ''()Ljava/lang/Object;'',
              access_flags = None,
              cache = Some \<lparr>address = sym_vaddr json_obj, dexindex = dex,
                            is_imported = sym_is_imported json_obj\<rparr>\<rparr>
      else case finditer_flag (sym_flagname json_obj) of
        [] \<Rightarrow> None
      | m # ms \<Rightarrow>
          Some \<lparr>class_name = convert_type_to_type_signature
                       (drop_prefixes (drop_method_name (sym_flagname json_obj) (last (m # ms)))),
                name = sym_realname json_obj, descriptor = desc, access_flags = None,
                cache = Some \<lparr>address = sym_vaddr json_obj, dexindex = dex,
                              is_imported = sym_is_imported json_obj\<rparr>\<rparr>)"

definition parse_method_from_isj_obj :: "isj_obj \<Rightarrow> nat \<Rightarrow> error + MethodObject option" where
  "parse_method_from_isj_obj json_obj dex =
     (if sym_type json_obj \<notin> {Some ''FUNC'', Some ''METH''} then Inr None
      else case match_paren_sig (sym_name json_obj) of
        None \<Rightarrow> Inr None
      | Some raw_argument_str \<Rightarrow>
         (case (if suffix '')'' raw_argument_str
                then source_signature (sym_name json_obj) raw_argument_str
                else Some raw_argument_str) of
            None \<Rightarrow> Inr None
          | Some raw_signature \<Rightarrow>
             (case descriptor_to_androguard_format raw_signature of
                Inl e \<Rightarrow> Inl e
              | Inr desc \<Rightarrow> Inr (method_of_flag json_obj dex desc))))"

subsection \<open>The class descriptor carries no symbol prefix\<close>

lemma drop_prefixes_no_prefix:
  "\<not> prefix ''sym.'' (drop_prefixes flag_name) \<and> \<not> prefix ''imp.'' (drop_prefixes flag_name)"
proof (induction flag_name rule: drop_prefixes.induct)
  case (1 flag_name)
  show ?case
  proof (cases "prefix ''sym.'' flag_name \<or> prefix ''imp.'' flag_name")
    case True
    with "1.IH" show ?thesis by (subst (1 2) drop_prefixes.simps) simp
  next
    case False
    then show ?thesis by (subst (1 2) drop_prefixes.simps) simp
  qed
qed

lemma drop_prefixes_strip:
  "drop_prefixes (''sym.'' @ flag_name) = drop_prefixes flag_name"
  "drop_prefixes (''imp.'' @ flag_name) = drop_prefixes flag_name"
  by (subst drop_prefixes.simps, simp)+

lemma drop_method_name_prefix: "prefix (drop_method_name flag_name match) flag_name"
  by (auto simp: drop_method_name_def take_is_prefix prefixeq_butlast split: option.splits)

lemma map_of_PRIMITIVE_TYPE_MAPPING:
  "map_of PRIMITIVE_TYPE_MAPPING raw_type = Some sig \<Longrightarrow> sig \<in> set [''V'', ''Z'', ''B'', ''C'', ''S'', ''I'', ''J'', ''F'', ''D'']"
  by (auto simp: PRIMITIVE_TYPE_MAPPING_def split: if_splits)

lemma convert_head:
  "convert_type_to_type_signature raw_type = []
   \<or> hd (convert_type_to_type_signature raw_type) \<in> set ''[LVZBCSIJFD''"
proof (cases "raw_type = []")
  case True
  then show ?thesis by (subst convert_type_to_type_signature.simps) simp
next
  case False
  have "hd (convert_type_to_type_signature raw_type) \<in> set ''[LVZBCSIJFD''"
    using False
    by (subst convert_type_to_type_signature.simps)
       (auto split: option.splits dest!: map_of_PRIMITIVE_TYPE_MAPPING)
  then show ?thesis by simp
qed

lemma convert_no_prefix:
  "\<not> prefix ''sym.'' (convert_type_to_type_signature raw_type)
   \<and> \<not> prefix ''imp.'' (convert_type_to_type_signature raw_type)"
proof -
  have "hd y = CHR ''s'' \<and> y \<noteq> []" if "prefix ''sym.'' y" for y
    using that by (cases y) auto
  moreover have "hd y = CHR ''i'' \<and> y \<noteq> []" if "prefix ''imp.'' y" for y
    using that by (cases y) auto
  ultimately show ?thesis using convert_head [of raw_type] by fastforce
qed

text \<open>
  Claim C7. Every leading \<open>sym.\<close> and \<open>imp.\<close> is removed, however many there are,
  before the rest of the flag name (the name without its method-name suffix) goes to the
  converter; the class descriptor of every MethodObject the demangler returns starts with
  neither prefix.
\<close>

theorem demangled_class_has_no_prefix:
  "drop_prefixes (''sym.'' @ flag_name) = drop_prefixes flag_name
   \<and> drop_prefixes (''imp.'' @ flag_name) = drop_prefixes flag_name
   \<and> (parse_method_from_isj_obj json_obj dex = Inr (Some m) \<longrightarrow>
        \<not> prefix ''sym.'' (class_name m) \<and> \<not> prefix ''imp.'' (class_name m)
        \<and> (sym_flagname json_obj \<noteq> ''sym.imp.clone'' \<longrightarrow>
             (\<exists>rest. prefix rest (sym_flagname json_obj)
                \<and> \<not> prefix ''sym.'' (drop_prefixes rest)
                \<and> \<not> prefix ''imp.'' (drop_prefixes rest)
                \<and> class_name m = convert_type_to_type_signature (drop_prefixes rest))))"
proof -
  have "\<not> prefix ''sym.'' (class_name m) \<and> \<not> prefix ''imp.'' (class_name m)
        \<and> (sym_flagname json_obj \<noteq> ''sym.imp.clone'' \<longrightarrow>
             (\<exists>rest. prefix rest (sym_flagname json_obj)
                \<and> \<not> prefix ''sym.'' (drop_prefixes rest)
                \<and> \<not> prefix ''imp.'' (drop_prefixes rest)
                \<and> class_name m = convert_type_to_type_signature (drop_prefixes rest)))"
    if p: "parse_method_from_isj_obj json_obj dex = Inr (Some m)"
  proof -
    from p obtain desc where m: "method_of_flag json_obj dex desc = Some m"
      by (auto simp: parse_method_from_isj_obj_def
               split: if_splits option.splits sum.splits)
    show ?thesis
    proof (cases "sym_flagname json_obj = ''sym.imp.clone''")
      case True
      with m have "class_name m = []" by (auto simp: method_of_flag_def)
      with True show ?thesis by simp
    next
      case False
      with m obtain x xs where
        c: "class_name m = convert_type_to_type_signature
              (drop_prefixes (drop_method_name (sym_flagname json_obj) (last (x # xs))))"
        by (auto simp: method_of_flag_def split: list.splits)
      from c convert_no_prefix
      have "\<not> prefix ''sym.'' (class_name m) \<and> \<not> prefix ''imp.'' (class_name m)" by simp
      with c drop_method_name_prefix drop_prefixes_no_prefix show ?thesis by blast
    qed
  qed
  with drop_prefixes_strip show ?thesis by blast
qed

theorem demangled_class_has_no_prefix_witness:
  "parse_method_from_isj_obj
     \<lparr>sym_type = Some ''METH'', sym_name = ''imp.get()Ljava/lang/Object;'',
      sym_realname = ''get'', sym_flagname = ''sym.imp.java.util.concurrent.FutureTask_get'',
      sym_vaddr = 0, sym_is_imported = True\<rparr> 0
     = Inr (Some \<lparr>class_name = ''Ljava/util/concurrent/FutureTask;'', name = ''get'',
                  descriptor = ''()Ljava/lang/Object;'', access_flags = None,
                  cache = Some \<lparr>address = 0, dexindex = 0, is_imported = True\<rparr>\<rparr>)
   \<and> \<not> prefix ''sym.'' ''Ljava/util/concurrent/FutureTask;''
   \<and> \<not> prefix ''imp.'' ''Ljava/util/concurrent/FutureTask;''"
proof -
  have p: "parse_method_from_isj_obj
     \<lparr>sym_type = Some ''METH'', sym_name = ''imp.get()Ljava/lang/Object;'',
      sym_realname = ''get'', sym_flagname = ''sym.imp.java.util.concurrent.FutureTask_get'',
      sym_vaddr = 0, sym_is_imported = True\<rparr> 0
     = Inr (Some \<lparr>class_name = ''Ljava/util/concurrent/FutureTask;'', name = ''get'',
                  descriptor = ''()Ljava/lang/Object;'', access_flags = None,
                  cache = Some \<lparr>address = 0, dexindex = 0, is_imported = True\<rparr>\<rparr>)"
    by code_simp
  from demangled_class_has_no_prefix [of "[]"
     "\<lparr>sym_type = Some ''METH'', sym_name = ''imp.get()Ljava/lang/Object;'',
      sym_realname = ''get'', sym_flagname = ''sym.imp.java.util.concurrent.FutureTask_get'',
      sym_vaddr = 0, sym_is_imported = True\<rparr>" 0
     "\<lparr>class_name = ''Ljava/util/concurrent/FutureTask;'', name = ''get'',
                  descriptor = ''()Ljava/lang/Object;'', access_flags = None,
                  cache = Some \<lparr>address = 0, dexindex = 0, is_imported = True\<rparr>\<rparr>"] p
  show ?thesis by simp
qed

section \<open>The backend and the cross-reference resolver (rzapkinfo.py)\<close>

text \<open>
  The JSON the backend returns. An entry of \<open>axtj\<close> (cross-references to an address)
  has a \<open>type\<close> and may have a \<open>from\<close>; an instruction of \<open>pdfj\<close> (the \<open>ops\<close> of a
  function) has an \<open>offset\<close>, its \<open>disasm\<close> text, its \<open>bytes\<close> and may have
  \<open>xrefs_from\<close>, each with an \<open>addr\<close> and a \<open>type\<close>.
\<close>

record xref_to =
  xref_type :: string
  xref_from :: "int option"

record xref_from_ins =
  call_addr :: int
  call_type :: string

record ins_obj =
  ins_offset :: int
  ins_disasm :: string
  ins_bytes :: string
  ins_xrefs_from :: "xref_from_ins list option"

text \<open>
  One session per sub-image: \<open>_get_rz(index)\<close> opens sub-image \<open>index\<close>, and
  \<open>rz.cmdj\<close> on it answers a command. The answers are the parameter of the model, per
  sub-image index and address; a function of the facade returns its result together with
  the queries it has issued, in their order.
\<close>

record backend =
  axtj :: "nat \<Rightarrow> int \<Rightarrow> xref_to list"
  pdfj :: "nat \<Rightarrow> int \<Rightarrow> ins_obj list"
  is_dot_j :: "nat \<Rightarrow> int \<Rightarrow> isj_obj list"

datatype query = Axtj nat int | Pdfj nat int | IsDotJ nat int

text \<open>\<open>_get_method_by_address\<close>: \<open>dexindex = 0\<close> is a constant of the code.\<close>

definition get_method_by_address ::
    "backend \<Rightarrow> int \<Rightarrow> (error + MethodObject option) \<times> query list" where
  "get_method_by_address be addr =
     (let dex = 0;
          json_array = is_dot_j be dex addr
      in (if json_array \<noteq> [] then parse_method_from_isj_obj (hd json_array) dex
          else Inr None,
          [IsDotJ dex addr]))"

text \<open>\<open>upperfunc\<close>: the loop over the cross-references, with the set built so far and
  the queries issued so far.\<close>

fun upperfunc_loop ::
    "(string \<times> string \<times> string \<Rightarrow> int) \<Rightarrow> backend \<Rightarrow> xref_to list \<Rightarrow> MethodObject list
       \<Rightarrow> query list \<Rightarrow> (error + MethodObject list) \<times> query list" where
  "upperfunc_loop h be [] upperfunc_set log = (Inr upperfunc_set, log)"
| "upperfunc_loop h be (xref # xrefs) upperfunc_set log =
     (if xref_type xref \<noteq> ''CALL'' then upperfunc_loop h be xrefs upperfunc_set log
      else case xref_from xref of
        None \<Rightarrow> upperfunc_loop h be xrefs upperfunc_set log
      | Some from_addr \<Rightarrow>
         (case get_method_by_address be from_addr of
            (Inl e, qs) \<Rightarrow> (Inl e, log @ qs)
          | (Inr None, qs) \<Rightarrow> upperfunc_loop h be xrefs upperfunc_set (log @ qs)
          | (Inr (Some matched_method), qs) \<Rightarrow>
              upperfunc_loop h be xrefs (set_add h matched_method upperfunc_set) (log @ qs)))"

text \<open>A MethodObject built without a backend handle has \<open>cache = None\<close>; reading
  \<open>cache.dexindex\<close> then raises AttributeError.\<close>

definition upperfunc ::
    "(string \<times> string \<times> string \<Rightarrow> int) \<Rightarrow> backend \<Rightarrow> MethodObject
       \<Rightarrow> (error + MethodObject list) \<times> query list" where
  "upperfunc h be method_object =
     (case cache method_object of
        None \<Rightarrow> (Inl AttributeError, [])
      | Some c \<Rightarrow>
          upperfunc_loop h be (axtj be (dexindex c) (address c)) []
            [Axtj (dexindex c) (address c)])"

text \<open>\<open>lowerfunc\<close>: the inner loop over the call edges of one instruction and the outer
  loop over the instructions, with the list built so far and the queries issued so far.
  The edges whose type is not \<open>CALL\<close> are filtered out by the generator expression.\<close>

fun lowerfunc_calls ::
    "backend \<Rightarrow> int \<Rightarrow> ins_obj \<Rightarrow> xref_from_ins list \<Rightarrow> (MethodObject \<times> int) list
       \<Rightarrow> query list \<Rightarrow> (error + (MethodObject \<times> int) list) \<times> query list" where
  "lowerfunc_calls be start ins [] lowerfunc_list log = (Inr lowerfunc_list, log)"
| "lowerfunc_calls be start ins (call_xref # call_xrefs) lowerfunc_list log =
     (case get_method_by_address be (call_addr call_xref) of
        (Inl e, qs) \<Rightarrow> (Inl e, log @ qs)
      | (Inr None, qs) \<Rightarrow> lowerfunc_calls be start ins call_xrefs lowerfunc_list (log @ qs)
      | (Inr (Some lowerfunc), qs) \<Rightarrow>
          lowerfunc_calls be start ins call_xrefs
            (lowerfunc_list @ [(lowerfunc, ins_offset ins - start)]) (log @ qs))"

fun lowerfunc_loop ::
    "backend \<Rightarrow> int \<Rightarrow> ins_obj list \<Rightarrow> (MethodObject \<times> int) list
       \<Rightarrow> query list \<Rightarrow> (error + (MethodObject \<times> int) list) \<times> query list" where
  "lowerfunc_loop be start [] lowerfunc_list log = (Inr lowerfunc_list, log)"
| "lowerfunc_loop be start (ins # instruct_flow) lowerfunc_list log =
     (case ins_xrefs_from ins of
        None \<Rightarrow> lowerfunc_loop be start instruct_flow lowerfunc_list log
      | Some xrefs \<Rightarrow>
         (case lowerfunc_calls be start ins
                 (filter (\<lambda>xref. call_type xref = ''CALL'') xrefs) lowerfunc_list log of
            (Inl e, log') \<Rightarrow> (Inl e, log')
          | (Inr lowerfunc_list', log') \<Rightarrow>
              lowerfunc_loop be start instruct_flow lowerfunc_list' log'))"

definition lowerfunc ::
    "backend \<Rightarrow> MethodObject \<Rightarrow> (error + (MethodObject \<times> int) list) \<times> query list" where
  "lowerfunc be method_object =
     (case cache method_object of
        None \<Rightarrow> (Inl AttributeError, [])
      | Some c \<Rightarrow>
          lowerfunc_loop be (address c) (pdfj be (dexindex c) (address c)) []
            [Pdfj (dexindex c) (address c)])"

subsection \<open>The demangler raises no error\<close>

lemma match_paren_sig_parens:
  "match_paren_sig s = Some r \<Longrightarrow> CHR ''('' \<in> set r \<and> CHR '')'' \<in> set r"
  by (induction s) (auto split: if_splits)

lemma source_signature_parens:
  "source_signature full raw = Some r \<Longrightarrow> CHR ''('' \<in> set r \<and> CHR '')'' \<in> set r"
  by (auto simp: source_signature_def split: option.splits)

lemma parse_method_from_isj_obj_no_error:
  "parse_method_from_isj_obj json_obj dex \<noteq> Inl e"
proof
  assume a: "parse_method_from_isj_obj json_obj dex = Inl e"
  then obtain raw sig where
    raw: "match_paren_sig (sym_name json_obj) = Some raw" and
    sig: "(if suffix '')'' raw then source_signature (sym_name json_obj) raw else Some raw) = Some sig"
    and err: "descriptor_to_androguard_format sig = Inl e"
    by (auto simp: parse_method_from_isj_obj_def split: if_splits option.splits sum.splits)
  from raw sig have "CHR ''('' \<in> set sig \<and> CHR '')'' \<in> set sig"
    using match_paren_sig_parens [OF raw] source_signature_parens
    by (auto split: if_splits)
  with descriptor_to_androguard_format_raises [of sig] err show False by blast
qed

lemma parse_method_from_isj_obj_cache:
  "parse_method_from_isj_obj json_obj dex = Inr (Some m) \<Longrightarrow>
     \<exists>c. cache m = Some c \<and> dexindex c = dex \<and> address c = sym_vaddr json_obj"
  by (auto simp: parse_method_from_isj_obj_def method_of_flag_def
           split: if_splits option.splits sum.splits list.splits)

lemma get_method_by_address_query: "snd (get_method_by_address be addr) = [IsDotJ 0 addr]"
  by (simp add: get_method_by_address_def Let_def)

lemma get_method_by_address_no_error: "fst (get_method_by_address be addr) \<noteq> Inl e"
  by (simp add: get_method_by_address_def Let_def parse_method_from_isj_obj_no_error)

lemma get_method_by_address_cases:
  obtains (unresolved) "get_method_by_address be addr = (Inr None, [IsDotJ 0 addr])"
  | (resolved) m where "get_method_by_address be addr = (Inr (Some m), [IsDotJ 0 addr])"
proof -
  obtain r qs where g: "get_method_by_address be addr = (r, qs)" by (cases "get_method_by_address be addr")
  with get_method_by_address_query [of be addr] have qs: "qs = [IsDotJ 0 addr]" by simp
  from g get_method_by_address_no_error [of be addr] have ne: "\<And>e. r \<noteq> Inl e" by simp
  show ?thesis
  proof (cases r)
    case (Inl e)
    with ne [of e] show ?thesis by simp
  next
    case (Inr res)
    show ?thesis
    proof (cases res)
      case None
      with Inr g qs unresolved show ?thesis by simp
    next
      case (Some m)
      with Inr g qs resolved show ?thesis by simp
    qed
  qed
qed

lemma get_method_by_address_dex0:
  "fst (get_method_by_address be addr) = Inr (Some m) \<Longrightarrow>
     \<exists>c. cache m = Some c \<and> dexindex c = 0"
  using parse_method_from_isj_obj_cache [of _ 0 m]
  by (auto simp: get_method_by_address_def Let_def split: if_splits)

lemma get_method_by_address_session0:
  "is_dot_j be 0 addr = is_dot_j be' 0 addr \<Longrightarrow>
     get_method_by_address be addr = get_method_by_address be' addr"
  by (simp add: get_method_by_address_def Let_def)

subsection \<open>What lowerfunc returns\<close>

text \<open>The wording of the specification, for comparison with the loops of the code: one
  pair per call edge whose target address resolves to a method, the offset being the
  address of the calling instruction minus the start address of the method.\<close>

definition spec_call_sites :: "backend \<Rightarrow> int \<Rightarrow> ins_obj \<Rightarrow> (MethodObject \<times> int) list" where
  "spec_call_sites be start ins =
     (case ins_xrefs_from ins of
        None \<Rightarrow> []
      | Some xrefs \<Rightarrow>
          concat (map (\<lambda>xref.
            case fst (get_method_by_address be (call_addr xref)) of
              Inr (Some callee) \<Rightarrow> [(callee, ins_offset ins - start)]
            | _ \<Rightarrow> [])
            (filter (\<lambda>xref. call_type xref = ''CALL'') xrefs)))"

lemma lowerfunc_calls_result:
  "lowerfunc_calls be start ins xrefs acc log =
     (Inr (acc @ concat (map (\<lambda>xref.
            case fst (get_method_by_address be (call_addr xref)) of
              Inr (Some callee) \<Rightarrow> [(callee, ins_offset ins - start)]
            | _ \<Rightarrow> []) xrefs)),
      log @ map (\<lambda>xref. IsDotJ 0 (call_addr xref)) xrefs)"
proof (induction xrefs arbitrary: acc log)
  case Nil
  then show ?case by simp
next
  case (Cons x xs)
  show ?case
  proof (cases rule: get_method_by_address_cases [of be "call_addr x"])
    case unresolved
    then show ?thesis by (simp add: Cons.IH)
  next
    case (resolved m)
    then show ?thesis by (simp add: Cons.IH)
  qed
qed

definition call_queries :: "ins_obj \<Rightarrow> query list" where
  "call_queries ins =
     (case ins_xrefs_from ins of
        None \<Rightarrow> []
      | Some xrefs \<Rightarrow>
          map (\<lambda>xref. IsDotJ 0 (call_addr xref)) (filter (\<lambda>xref. call_type xref = ''CALL'') xrefs))"

lemma lowerfunc_loop_result:
  "lowerfunc_loop be start ops acc log =
     (Inr (acc @ concat (map (spec_call_sites be start) ops)),
      log @ concat (map call_queries ops))"
proof (induction ops arbitrary: acc log)
  case Nil
  then show ?case by simp
next
  case (Cons ins ops)
  show ?case
  proof (cases "ins_xrefs_from ins")
    case None
    then show ?thesis by (simp add: Cons.IH spec_call_sites_def call_queries_def)
  next
    case (Some xrefs)
    then show ?thesis
      by (simp add: Cons.IH lowerfunc_calls_result spec_call_sites_def call_queries_def)
  qed
qed

lemma lowerfunc_result:
  "cache m = Some c \<Longrightarrow>
   lowerfunc be m =
     (Inr (concat (map (spec_call_sites be (address c)) (pdfj be (dexindex c) (address c)))),
      Pdfj (dexindex c) (address c) # concat (map call_queries (pdfj be (dexindex c) (address c))))"
  by (simp add: lowerfunc_def lowerfunc_loop_result)

lemma spec_call_sites_offset:
  "(callee, off) \<in> set (spec_call_sites be start ins) \<Longrightarrow> off = ins_offset ins - start"
  by (auto simp: spec_call_sites_def split: option.splits sum.splits)

lemma spec_call_sites_dex0:
  "(callee, off) \<in> set (spec_call_sites be start ins) \<Longrightarrow>
     \<exists>c. cache callee = Some c \<and> dexindex c = 0"
  by (auto simp: spec_call_sites_def split: option.splits sum.splits
           dest!: get_method_by_address_dex0 [OF sym])

lemma call_queries_session0: "q \<in> set (call_queries ins) \<Longrightarrow> \<exists>a. q = IsDotJ 0 a"
  by (auto simp: call_queries_def split: option.splits)

subsection \<open>What upperfunc returns\<close>

definition caller_queries :: "xref_to \<Rightarrow> query list" where
  "caller_queries xref =
     (if xref_type xref \<noteq> ''CALL'' then []
      else case xref_from xref of None \<Rightarrow> [] | Some from_addr \<Rightarrow> [IsDotJ 0 from_addr])"

lemma set_add_subset: "set (set_add h x s) \<subseteq> insert x (set s)"
  by (auto simp: set_add_def)

lemma upperfunc_loop_result:
  "\<exists>r. upperfunc_loop h be xrefs s log = (Inr r, log @ concat (map caller_queries xrefs))
       \<and> (\<forall>caller \<in> set r. caller \<in> set s \<or> (\<exists>c. cache caller = Some c \<and> dexindex c = 0))"
proof (induction xrefs arbitrary: s log)
  case Nil
  then show ?case by simp
next
  case (Cons x xs)
  show ?case
  proof (cases "xref_type x \<noteq> ''CALL''")
    case True
    then have "caller_queries x = []" by (simp add: caller_queries_def)
    with True Cons.IH [of s log] show ?thesis by simp
  next
    case call: False
    show ?thesis
    proof (cases "xref_from x")
      case None
      with call have "caller_queries x = []" by (simp add: caller_queries_def)
      with None call Cons.IH [of s log] show ?thesis by simp
    next
      case (Some a)
      with call have cq: "caller_queries x = [IsDotJ 0 a]" by (simp add: caller_queries_def)
      show ?thesis
      proof (cases rule: get_method_by_address_cases [of be a])
        case unresolved
        with call Some cq Cons.IH [of s "log @ [IsDotJ 0 a]"] show ?thesis
          by simp
      next
        case (resolved m)
        then have "fst (get_method_by_address be a) = Inr (Some m)" by simp
        from get_method_by_address_dex0 [OF this]
        have m0: "\<exists>c. cache m = Some c \<and> dexindex c = 0" .
        from Cons.IH [of "set_add h m s" "log @ [IsDotJ 0 a]"] obtain r where
          r: "upperfunc_loop h be xs (set_add h m s) (log @ [IsDotJ 0 a])
                = (Inr r, (log @ [IsDotJ 0 a]) @ concat (map caller_queries xs))"
          and mem: "\<forall>caller \<in> set r. caller \<in> set (set_add h m s)
                      \<or> (\<exists>c. cache caller = Some c \<and> dexindex c = 0)"
          by blast
        from mem m0 set_add_subset [of h m s]
        have "\<forall>caller \<in> set r. caller \<in> set s \<or> (\<exists>c. cache caller = Some c \<and> dexindex c = 0)"
          by blast
        with r call Some resolved cq show ?thesis by simp
      qed
    qed
  qed
qed

lemma caller_queries_session0: "q \<in> set (caller_queries xref) \<Longrightarrow> \<exists>a. q = IsDotJ 0 a"
  by (auto simp: caller_queries_def split: if_splits option.splits)

lemma upperfunc_result:
  assumes "cache m = Some c"
  shows "\<exists>r. upperfunc h be m =
           (Inr r, Axtj (dexindex c) (address c)
                   # concat (map caller_queries (axtj be (dexindex c) (address c))))
         \<and> (\<forall>caller \<in> set r. \<exists>c'. cache caller = Some c' \<and> dexindex c' = 0)"
  using upperfunc_loop_result [of h be "axtj be (dexindex c) (address c)" "[]"
          "[Axtj (dexindex c) (address c)]"] assms
  by (auto simp: upperfunc_def)

text \<open>
  Claim C5. For a method with a backend handle, lowerfunc returns the list that has one
  pair (callee, offset) per call edge whose target resolves to a method, in the order of
  the instructions and of their edges, with nothing removed; every offset is the address
  of the calling instruction minus the start address of the method, and is not negative
  when no instruction lies before the start address.
\<close>

theorem lowerfunc_call_sites:
  "cache m = Some c \<longrightarrow>
     fst (lowerfunc be m)
       = Inr (concat (map (spec_call_sites be (address c)) (pdfj be (dexindex c) (address c))))
     \<and> (\<forall>ins callee off. (callee, off) \<in> set (spec_call_sites be (address c) ins) \<longrightarrow>
            off = ins_offset ins - address c)
     \<and> ((\<forall>ins \<in> set (pdfj be (dexindex c) (address c)). address c \<le> ins_offset ins) \<longrightarrow>
          (\<exists>r. fst (lowerfunc be m) = Inr r \<and> (\<forall>(callee, off) \<in> set r. 0 \<le> off)))"
proof
  assume c: "cache m = Some c"
  let ?ops = "pdfj be (dexindex c) (address c)"
  have r: "fst (lowerfunc be m) = Inr (concat (map (spec_call_sites be (address c)) ?ops))"
    by (simp add: lowerfunc_result [OF c])
  have o: "\<forall>ins callee off. (callee, off) \<in> set (spec_call_sites be (address c) ins) \<longrightarrow>
            off = ins_offset ins - address c"
    by (blast dest: spec_call_sites_offset)
  have "\<forall>(callee, off) \<in> set (concat (map (spec_call_sites be (address c)) ?ops)). 0 \<le> off"
    if wf: "\<forall>ins \<in> set ?ops. address c \<le> ins_offset ins"
  proof (clarify)
    fix callee off
    assume "(callee, off) \<in> set (concat (map (spec_call_sites be (address c)) ?ops))"
    then obtain ins where "ins \<in> set ?ops" "(callee, off) \<in> set (spec_call_sites be (address c) ins)"
      by auto
    with wf spec_call_sites_offset [of callee off be "address c" ins] show "0 \<le> off" by auto
  qed
  with r o show "fst (lowerfunc be m)
       = Inr (concat (map (spec_call_sites be (address c)) ?ops))
     \<and> (\<forall>ins callee off. (callee, off) \<in> set (spec_call_sites be (address c) ins) \<longrightarrow>
            off = ins_offset ins - address c)
     \<and> ((\<forall>ins \<in> set ?ops. address c \<le> ins_offset ins) \<longrightarrow>
          (\<exists>r. fst (lowerfunc be m) = Inr r \<and> (\<forall>(callee, off) \<in> set r. 0 \<le> off)))"
    by simp
qed

text \<open>
  Claim C10. The symbol-at-address query of the address resolution goes to the session
  of sub-image 0 and its answer is parsed with sub-image index 0, whatever sub-image the
  analysed method lies in: the resolution depends on no other session, every query that
  upperfunc and lowerfunc issue is the one cross-reference or disassembly query for the
  method's own sub-image or a symbol query for sub-image 0, and every method they return
  carries the sub-image index 0.
\<close>

theorem address_resolution_uses_session0:
  "snd (get_method_by_address be addr) = [IsDotJ 0 addr]
   \<and> (is_dot_j be 0 addr = is_dot_j be' 0 addr \<longrightarrow>
        get_method_by_address be addr = get_method_by_address be' addr)
   \<and> (cache m = Some c \<longrightarrow>
        (\<forall>q \<in> set (snd (lowerfunc be m)).
            q = Pdfj (dexindex c) (address c) \<or> (\<exists>a. q = IsDotJ 0 a))
      \<and> (\<forall>q \<in> set (snd (upperfunc h be m)).
            q = Axtj (dexindex c) (address c) \<or> (\<exists>a. q = IsDotJ 0 a))
      \<and> (\<exists>r. fst (lowerfunc be m) = Inr r
            \<and> (\<forall>(callee, off) \<in> set r. \<exists>c'. cache callee = Some c' \<and> dexindex c' = 0))
      \<and> (\<exists>r. fst (upperfunc h be m) = Inr r
            \<and> (\<forall>caller \<in> set r. \<exists>c'. cache caller = Some c' \<and> dexindex c' = 0)))"
proof -
  have a: "snd (get_method_by_address be addr) = [IsDotJ 0 addr]"
    by (rule get_method_by_address_query)
  have b: "is_dot_j be 0 addr = is_dot_j be' 0 addr \<longrightarrow>
        get_method_by_address be addr = get_method_by_address be' addr"
    by (blast intro: get_method_by_address_session0)
  have "(\<forall>q \<in> set (snd (lowerfunc be m)).
            q = Pdfj (dexindex c) (address c) \<or> (\<exists>a. q = IsDotJ 0 a))
      \<and> (\<forall>q \<in> set (snd (upperfunc h be m)).
            q = Axtj (dexindex c) (address c) \<or> (\<exists>a. q = IsDotJ 0 a))
      \<and> (\<exists>r. fst (lowerfunc be m) = Inr r
            \<and> (\<forall>(callee, off) \<in> set r. \<exists>c'. cache callee = Some c' \<and> dexindex c' = 0))
      \<and> (\<exists>r. fst (upperfunc h be m) = Inr r
            \<and> (\<forall>caller \<in> set r. \<exists>c'. cache caller = Some c' \<and> dexindex c' = 0))"
    if c: "cache m = Some c"
  proof -
    have l1: "\<forall>q \<in> set (snd (lowerfunc be m)).
            q = Pdfj (dexindex c) (address c) \<or> (\<exists>a. q = IsDotJ 0 a)"
      using call_queries_session0 by (auto simp: lowerfunc_result [OF c])
    have l2: "\<exists>r. fst (lowerfunc be m) = Inr r
            \<and> (\<forall>(callee, off) \<in> set r. \<exists>c'. cache callee = Some c' \<and> dexindex c' = 0)"
      using spec_call_sites_dex0 by (fastforce simp: lowerfunc_result [OF c])
    from upperfunc_result [OF c, of h be] obtain r where
      u: "upperfunc h be m =
           (Inr r, Axtj (dexindex c) (address c)
                   # concat (map caller_queries (axtj be (dexindex c) (address c))))"
      and um: "\<forall>caller \<in> set r. \<exists>c'. cache caller = Some c' \<and> dexindex c' = 0"
      by blast
    have u1: "\<forall>q \<in> set (snd (upperfunc h be m)).
            q = Axtj (dexindex c) (address c) \<or> (\<exists>a. q = IsDotJ 0 a)"
      using caller_queries_session0 by (auto simp: u)
    have u2: "\<exists>r. fst (upperfunc h be m) = Inr r
            \<and> (\<forall>caller \<in> set r. \<exists>c'. cache caller = Some c' \<and> dexindex c' = 0)"
      using um by (simp add: u)
    from l1 l2 u1 u2 show ?thesis by blast
  qed
  with a b show ?thesis by blast
qed

subsection \<open>An example with two sub-images\<close>

text \<open>Sub-image 1 holds a method at address 100 that calls address 500 from its
  instructions at 104 and 110 and is called from address 500; the symbol at address 500
  is \<open>FutureTask.get\<close> in sub-image 0 and \<open>WebServiceCalling.Request\<close> in sub-image 1.\<close>

definition example_backend :: backend where
  "example_backend =
     \<lparr>axtj = (\<lambda>i a. if i = 1 \<and> a = 100
                     then [\<lparr>xref_type = ''CALL'', xref_from = Some 500\<rparr>] else []),
      pdfj = (\<lambda>i a. if i = 1 \<and> a = 100
                     then [\<lparr>ins_offset = 104, ins_disasm = ''invoke-virtual {v1}, Ljava/util/concurrent/FutureTask.get()Ljava/lang/Object; ; 0x1f4'',
                             ins_bytes = ''6e100a000100'',
                             ins_xrefs_from = Some [\<lparr>call_addr = 500, call_type = ''CALL''\<rparr>]\<rparr>,
                           \<lparr>ins_offset = 110, ins_disasm = ''invoke-virtual {v1}, Ljava/util/concurrent/FutureTask.get()Ljava/lang/Object; ; 0x1f4'',
                             ins_bytes = ''6e100a000100'',
                             ins_xrefs_from = Some [\<lparr>call_addr = 500, call_type = ''CALL''\<rparr>]\<rparr>]
                     else []),
      is_dot_j = (\<lambda>i a. if a = 500 then
                     (if i = 0 then
                        [\<lparr>sym_type = Some ''METH'', sym_name = ''imp.get()Ljava/lang/Object;'',
                          sym_realname = ''get'',
                          sym_flagname = ''sym.imp.java.util.concurrent.FutureTask_get'',
                          sym_vaddr = 500, sym_is_imported = True\<rparr>]
                      else
                        [\<lparr>sym_type = Some ''METH'',
                          sym_name = ''void Request(android.os.Handler, String, String)'',
                          sym_realname = ''Request'',
                          sym_flagname = ''sym.com.example.google.service.WebServiceCalling_Request'',
                          sym_vaddr = 500, sym_is_imported = False\<rparr>])
                   else [])\<rparr>"

definition example_method :: MethodObject where
  "example_method =
     \<lparr>class_name = ''La;'', name = ''f'', descriptor = ''()V'', access_flags = None,
      cache = Some \<lparr>address = 100, dexindex = 1, is_imported = False\<rparr>\<rparr>"

definition example_callee :: MethodObject where
  "example_callee =
     \<lparr>class_name = ''Ljava/util/concurrent/FutureTask;'', name = ''get'',
      descriptor = ''()Ljava/lang/Object;'', access_flags = None,
      cache = Some \<lparr>address = 500, dexindex = 0, is_imported = True\<rparr>\<rparr>"

lemma example_lowerfunc:
  "lowerfunc example_backend example_method
     = (Inr [(example_callee, 4), (example_callee, 10)],
        [Pdfj 1 100, IsDotJ 0 500, IsDotJ 0 500])"
  by code_simp

lemma example_upperfunc:
  "upperfunc (\<lambda>t. 0) example_backend example_method
     = (Inr [example_callee], [Axtj 1 100, IsDotJ 0 500])"
  by code_simp

theorem lowerfunc_call_sites_witness:
  "cache example_method = Some \<lparr>address = 100, dexindex = 1, is_imported = False\<rparr>
   \<and> list_all (\<lambda>ins. 100 \<le> ins_offset ins) (pdfj example_backend 1 100)
   \<and> fst (lowerfunc example_backend example_method)
        = Inr [(example_callee, 4), (example_callee, 10)]
   \<and> list_all (\<lambda>(callee, off). (0::int) \<le> off) [(example_callee, 4), (example_callee, 10)]"
proof -
  have c: "cache example_method = Some \<lparr>address = 100, dexindex = 1, is_imported = False\<rparr>"
    by (simp add: example_method_def)
  have wf: "\<forall>ins \<in> set (pdfj example_backend 1 100). 100 \<le> ins_offset ins"
    by (simp add: example_backend_def)
  from lowerfunc_call_sites [of example_method
         "\<lparr>address = 100, dexindex = 1, is_imported = False\<rparr>" example_backend] c wf
  obtain r where "fst (lowerfunc example_backend example_method) = Inr r"
    "\<forall>(callee, off) \<in> set r. 0 \<le> off" by auto
  with c wf example_lowerfunc show ?thesis by (simp add: list_all_iff)
qed

theorem address_resolution_uses_session0_witness:
  "cache example_method = Some \<lparr>address = 100, dexindex = 1, is_imported = False\<rparr>
   \<and> lowerfunc example_backend example_method
     = (Inr [(example_callee, 4), (example_callee, 10)],
        [Pdfj 1 100, IsDotJ 0 500, IsDotJ 0 500])
   \<and> list_all (\<lambda>q. q = Pdfj 1 100 \<or> (\<exists>a. q = IsDotJ 0 a))
         [Pdfj 1 100, IsDotJ 0 500, IsDotJ 0 500]
   \<and> cache example_callee = Some \<lparr>address = 500, dexindex = 0, is_imported = True\<rparr>"
proof -
  have c: "cache example_method = Some \<lparr>address = 100, dexindex = 1, is_imported = False\<rparr>"
    by (simp add: example_method_def)
  from address_resolution_uses_session0 [of example_backend 500 example_backend example_method
         "\<lparr>address = 100, dexindex = 1, is_imported = False\<rparr>" "\<lambda>t. 0"] c
  have "\<forall>q \<in> set (snd (lowerfunc example_backend example_method)).
            q = Pdfj 1 100 \<or> (\<exists>a. q = IsDotJ 0 a)" by simp
  with c example_lowerfunc show ?thesis by (simp add: example_callee_def list_all_iff)
qed

section \<open>Method lookup (rzapkinfo.py)\<close>
























section \<open>Disassembly line parser (rzapkinfo.py)\<close>



















section \<open>Wrapper-evidence extractor (rzapkinfo.py)\<close>










subsection \<open>The fields of the evidence record\<close>







subsection \<open>What the extractor records\<close>






















end
